theory Spec2Isabelle
  imports Complex_Main
begin

section \<open>Python floats\<close>

text \<open>
  Balances, amounts, fees and timestamps are Python floats (IEEE 754 binary64, rounding to
  nearest, ties to even).  A finite float is represented by the rational number it denotes;
  an arithmetic operation computes the exact rational result and rounds it with \<open>fl\<close>.
  Infinities and NaN are outside the model (no operation of the ledger produces them from
  finite operands below the overflow threshold).  Comparisons of finite floats are the
  comparisons of their values.
\<close>

type_synonym pyfloat = rat

fun bitlen :: "nat \<Rightarrow> nat" where
  "bitlen n = (if n = 0 then 0 else Suc (bitlen (n div 2)))"

declare bitlen.simps [simp del]

definition pow2 :: "int \<Rightarrow> rat" where
  "pow2 e = (if 0 \<le> e then 2 ^ nat e else 1 / 2 ^ nat (- e))"

text \<open>For \<open>0 < x\<close>, \<open>ilog2 x\<close> is the exponent \<open>e\<close> with \<open>2 ^ e \<le> x < 2 ^ (e + 1)\<close>.\<close>

definition ilog2 :: "rat \<Rightarrow> int" where
  "ilog2 x = (if 1 \<le> x then int (bitlen (nat \<lfloor>x\<rfloor>)) - 1
              else - int (bitlen (nat (\<lceil>1 / x\<rceil> - 1))))"

definition round_half_even :: "rat \<Rightarrow> int" where
  "round_half_even y =
     (let f = \<lfloor>y\<rfloor>; d = y - of_int f
      in if d < 1 / 2 then f else if 1 / 2 < d then f + 1 else if even f then f else f + 1)"

text \<open>Rounding a positive rational to 53 significant bits (subnormals below \<open>2 ^ - 1022\<close>).\<close>

definition fl_pos :: "rat \<Rightarrow> rat" where
  "fl_pos x =
     (let e = max (ilog2 x - 52) (- 1074)
      in of_int (round_half_even (x / pow2 e)) * pow2 e)"

definition fl :: "rat \<Rightarrow> pyfloat" where
  "fl x = (if x = 0 then 0 else if 0 < x then fl_pos x else - fl_pos (- x))"

definition float_add :: "pyfloat \<Rightarrow> pyfloat \<Rightarrow> pyfloat" where
  "float_add x y = fl (x + y)"

definition float_sub :: "pyfloat \<Rightarrow> pyfloat \<Rightarrow> pyfloat" where
  "float_sub x y = fl (x - y)"

definition float_mul :: "pyfloat \<Rightarrow> pyfloat \<Rightarrow> pyfloat" where
  "float_mul x y = fl (x * y)"

text \<open>
  \<open>round(x, ndigits)\<close> on a float: the exact value is rounded half-even to \<open>ndigits\<close>
  decimals and the decimal result is converted to the nearest float.
\<close>

definition py_round :: "pyfloat \<Rightarrow> nat \<Rightarrow> pyfloat" where
  "py_round x ndigits = fl (of_int (round_half_even (x * 10 ^ ndigits)) / 10 ^ ndigits)"

section \<open>External libraries\<close>

text \<open>
  \<open>hashlib\<close>, \<open>json\<close> and \<open>cryptography\<close> are not part of the repository; the program is
  modelled relative to them.  Keys are opaque values.  The dictionaries handed to
  \<open>json.dumps\<close> are records of their entries.
\<close>

type_synonym private_key = nat
type_synonym public_key = nat

record tx_dict =
  d_sender_public_key :: string
  d_recipient :: string
  d_amount :: pyfloat
  d_fee :: pyfloat
  d_timestamp :: pyfloat

record block_dict =
  d_index :: nat
  d_block_timestamp :: pyfloat
  d_transactions :: "string list"
  d_previous_hash :: "string option"
  d_nonce :: nat
  d_miner :: string

record ext =
  public_key_of :: "private_key \<Rightarrow> public_key"
    \<comment> \<open>\<open>private_key.public_key()\<close>\<close>
  public_bytes :: "public_key \<Rightarrow> string"
    \<comment> \<open>\<open>key.public_bytes(PEM, SubjectPublicKeyInfo).decode()\<close>\<close>
  ecdsa_sign :: "private_key \<Rightarrow> string \<Rightarrow> nat \<Rightarrow> string"
    \<comment> \<open>\<open>private_key.sign(data.encode(), ECDSA(SHA256()))\<close>; the last argument is the
        signer's randomness\<close>
  dss_reencode :: "string \<Rightarrow> string"
    \<comment> \<open>\<open>encode_dss_signature(*decode_dss_signature(signature))\<close>\<close>
  ecdsa_verify :: "public_key \<Rightarrow> string \<Rightarrow> string \<Rightarrow> bool"
    \<comment> \<open>\<open>public_key.verify(signature, data.encode(), ECDSA(SHA256()))\<close> does not raise\<close>
  dumps_tx :: "tx_dict \<Rightarrow> string"
    \<comment> \<open>\<open>json.dumps(d, indent=4)\<close> on a transaction dictionary\<close>
  dumps_str :: "string \<Rightarrow> string"
    \<comment> \<open>\<open>json.dumps(s, sort_keys=True)\<close> on a string\<close>
  dumps_block :: "block_dict \<Rightarrow> string"
    \<comment> \<open>\<open>json.dumps(block_data, sort_keys=True)\<close>\<close>
  sha256_hexdigest :: "string \<Rightarrow> string"
    \<comment> \<open>\<open>hashlib.sha256(s.encode()).hexdigest()\<close>\<close>

datatype error = IndexError | AttributeError

datatype pyval = PyNone | PyBool bool

section \<open>Wallet\<close>

record wallet =
  name :: string
  private_key :: private_key
  public_key :: public_key
  balance :: pyfloat

text \<open>The constructor; \<open>sk\<close> is the freshly generated private key.\<close>

definition Wallet_init :: "ext \<Rightarrow> string \<Rightarrow> private_key \<Rightarrow> wallet" where
  "Wallet_init E nm sk =
     \<lparr>name = nm, private_key = sk, public_key = public_key_of E sk, balance = 0\<rparr>"

definition wallet_sign_transaction :: "ext \<Rightarrow> wallet \<Rightarrow> string \<Rightarrow> nat \<Rightarrow> string" where
  "wallet_sign_transaction E w data k = dss_reencode E (ecdsa_sign E (private_key w) data k)"

definition verify_signature :: "ext \<Rightarrow> wallet \<Rightarrow> string \<Rightarrow> string \<Rightarrow> bool" where
  "verify_signature E w data sg = (if ecdsa_verify E (public_key w) sg data then True else False)"

section \<open>Transaction\<close>

record transaction =
  sender_public_key :: public_key
  recipient :: public_key
  amount :: pyfloat
  fee :: pyfloat
  tx_timestamp :: pyfloat
  signature :: string

definition to_dict :: "ext \<Rightarrow> transaction \<Rightarrow> string" where
  "to_dict E t = dumps_tx E
     \<lparr>d_sender_public_key = public_bytes E (sender_public_key t),
      d_recipient = public_bytes E (recipient t),
      d_amount = amount t,
      d_fee = fee t,
      d_timestamp = tx_timestamp t\<rparr>"

definition tx_calculate_hash :: "ext \<Rightarrow> transaction \<Rightarrow> string" where
  "tx_calculate_hash E t = sha256_hexdigest E (dumps_str E (to_dict E t))"

definition sign_transaction :: "ext \<Rightarrow> transaction \<Rightarrow> wallet \<Rightarrow> nat \<Rightarrow> string" where
  "sign_transaction E t sender_wallet k =
     wallet_sign_transaction E sender_wallet (dumps_str E (to_dict E t)) k"

text \<open>
  The constructor; \<open>now\<close> is \<open>time.time()\<close> and \<open>k\<close> the signer's randomness.  The
  signature is computed before the attribute \<open>signature\<close> exists; \<open>to_dict\<close> does not read it.
\<close>

definition Transaction_init ::
  "ext \<Rightarrow> wallet \<Rightarrow> public_key \<Rightarrow> pyfloat \<Rightarrow> pyfloat \<Rightarrow> nat \<Rightarrow> transaction" where
  "Transaction_init E sender_wallet recipient_public_key amt now k =
     (let t = \<lparr>sender_public_key = public_key sender_wallet,
                recipient = recipient_public_key,
                amount = amt,
                fee = py_round (float_mul (fl (1 / 200)) amt) 8,
                tx_timestamp = now,
                signature = []\<rparr>
      in t\<lparr>signature := sign_transaction E t sender_wallet k\<rparr>)"

text \<open>
  \<open>is_valid\<close> receives what \<open>find_wallet_by_public_key\<close> returned; on \<open>None\<close> the
  attribute access \<open>sender_wallet.verify_signature\<close> raises.
\<close>

definition is_valid :: "ext \<Rightarrow> transaction \<Rightarrow> wallet option \<Rightarrow> error + bool" where
  "is_valid E t sender_wallet =
     (case sender_wallet of
        None \<Rightarrow> Inl AttributeError
      | Some w \<Rightarrow> Inr (verify_signature E w (dumps_str E (to_dict E t)) (signature t)))"

section \<open>Block\<close>

record block =
  index :: nat
  timestamp :: pyfloat
  transactions :: "transaction list"
  previous_hash :: "string option"
  nonce :: nat
  difficulty :: int
  miner :: "public_key option"
  hash :: "string option"

definition Block_init ::
  "nat \<Rightarrow> transaction list \<Rightarrow> string option \<Rightarrow> int \<Rightarrow> public_key option \<Rightarrow> pyfloat \<Rightarrow> block" where
  "Block_init i txs prev d m now =
     \<lparr>index = i, timestamp = now, transactions = txs, previous_hash = prev, nonce = 0,
      difficulty = d, miner = m, hash = None\<rparr>"

definition block_data :: "ext \<Rightarrow> block \<Rightarrow> block_dict" where
  "block_data E b =
     \<lparr>d_index = index b,
      d_block_timestamp = timestamp b,
      d_transactions = map (to_dict E) (transactions b),
      d_previous_hash = previous_hash b,
      d_nonce = nonce b,
      d_miner = (case miner b of Some k \<Rightarrow> public_bytes E k | None \<Rightarrow> ''GENESIS_BLOCK'')\<rparr>"

definition calculate_hash :: "ext \<Rightarrow> block \<Rightarrow> string" where
  "calculate_hash E b = sha256_hexdigest E (dumps_block E (block_data E b))"

definition startswith :: "string \<Rightarrow> string \<Rightarrow> bool" where
  "startswith s p = (take (length p) s = p)"

text \<open>The \<open>while True\<close> loop of \<open>mine_block\<close>; \<open>None\<close> is the loop that never returns.\<close>

partial_function (option) mine_loop :: "ext \<Rightarrow> string \<Rightarrow> block \<Rightarrow> (block \<times> string) option" where
  "mine_loop E prefix b =
     (if startswith (calculate_hash E b) prefix
      then Some (b\<lparr>hash := Some (calculate_hash E b)\<rparr>, calculate_hash E b)
      else mine_loop E prefix (b\<lparr>hash := Some (calculate_hash E b), nonce := nonce b + 1\<rparr>))"

definition mine_block :: "ext \<Rightarrow> block \<Rightarrow> (block \<times> string) option" where
  "mine_block E b = mine_loop E (replicate (nat (difficulty b)) CHR ''0'') b"

section \<open>Blockchain\<close>

type_synonym ref = nat

record blockchain =
  chain :: "block list"
  bc_difficulty :: int
  reward :: pyfloat
  wallets :: "string \<Rightarrow> ref option"

text \<open>
  Wallets are shared mutable objects: the registry, the miner list and the callers hold
  references to them.  The state is the store of wallet objects and the blockchain object.
\<close>

record state =
  heap :: "ref \<Rightarrow> wallet"
  bc :: blockchain

definition Blockchain_init :: "int \<Rightarrow> pyfloat \<Rightarrow> blockchain" where
  "Blockchain_init d r = \<lparr>chain = [], bc_difficulty = d, reward = r, wallets = Map.empty\<rparr>"

definition create_genesis_block :: "ext \<Rightarrow> pyfloat \<Rightarrow> blockchain \<Rightarrow> blockchain option" where
  "create_genesis_block E now B =
     (case mine_block E (Block_init 0 [] (Some ''0'') (bc_difficulty B) None now) of
        None \<Rightarrow> None
      | Some (genesis_block, h) \<Rightarrow> Some (B\<lparr>chain := chain B @ [genesis_block]\<rparr>))"

definition initialize :: "ext \<Rightarrow> pyfloat \<Rightarrow> blockchain \<Rightarrow> blockchain option" where
  "initialize E now B = create_genesis_block E now B"

definition find_wallet_by_public_key :: "ext \<Rightarrow> blockchain \<Rightarrow> public_key \<Rightarrow> ref option" where
  "find_wallet_by_public_key E B k = wallets B (public_bytes E k)"

definition register_wallet :: "ext \<Rightarrow> ref \<Rightarrow> state \<Rightarrow> state" where
  "register_wallet E r s =
     s\<lparr>bc := (bc s)\<lparr>wallets := (wallets (bc s))(public_bytes E (public_key (heap s r)) \<mapsto> r)\<rparr>\<rparr>"

text \<open>The wallet object a sender's key resolves to, as passed to \<open>is_valid\<close>.\<close>

definition sender_lookup :: "ext \<Rightarrow> state \<Rightarrow> transaction \<Rightarrow> wallet option" where
  "sender_lookup E s t =
     map_option (heap s) (find_wallet_by_public_key E (bc s) (sender_public_key t))"

text \<open>
  \<open>sum(transaction.fee for transaction in transactions if transaction.is_valid(...))\<close>:
  the accumulator starts at 0 and the first failing \<open>is_valid\<close> aborts the sum.
\<close>

fun sum_fees :: "ext \<Rightarrow> state \<Rightarrow> pyfloat \<Rightarrow> transaction list \<Rightarrow> error + pyfloat" where
  "sum_fees E s acc [] = Inr acc"
| "sum_fees E s acc (t # ts) =
     (case is_valid E t (sender_lookup E s t) of
        Inl e \<Rightarrow> Inl e
      | Inr ok \<Rightarrow> sum_fees E s (if ok then float_add acc (fee t) else acc) ts)"

definition add_balance :: "ref \<Rightarrow> pyfloat \<Rightarrow> state \<Rightarrow> state" where
  "add_balance r x s = s\<lparr>heap := (heap s)(r := (heap s r)\<lparr>balance := float_add (balance (heap s r)) x\<rparr>)\<rparr>"

definition sub_balance :: "ref \<Rightarrow> pyfloat \<Rightarrow> state \<Rightarrow> state" where
  "sub_balance r x s = s\<lparr>heap := (heap s)(r := (heap s r)\<lparr>balance := float_sub (balance (heap s r)) x\<rparr>)\<rparr>"

text \<open>The body of the balance loop for one transaction that passed \<open>is_valid\<close>.\<close>

definition apply_transaction :: "ext \<Rightarrow> transaction \<Rightarrow> state \<Rightarrow> state" where
  "apply_transaction E t s =
     (let sender_wallet = find_wallet_by_public_key E (bc s) (sender_public_key t);
          recipient_wallet = find_wallet_by_public_key E (bc s) (recipient t);
          s1 = (case sender_wallet of
                  Some a \<Rightarrow> sub_balance a (float_add (amount t) (fee t)) s
                | None \<Rightarrow> s)
      in (case recipient_wallet of
            Some r \<Rightarrow> add_balance r (amount t) s1
          | None \<Rightarrow> s1))"

fun update_balances :: "ext \<Rightarrow> transaction list \<Rightarrow> state \<Rightarrow> (error + pyval) \<times> state" where
  "update_balances E [] s = (Inr PyNone, s)"
| "update_balances E (t # ts) s =
     (case is_valid E t (sender_lookup E s t) of
        Inl e \<Rightarrow> (Inl e, s)
      | Inr ok \<Rightarrow> update_balances E ts (if ok then apply_transaction E t s else s))"

text \<open>
  \<open>add_block\<close>; \<open>rnd\<close> is the draw of \<open>random.choice\<close> and \<open>now\<close> is \<open>time.time()\<close>.
  The result is \<open>None\<close> when mining never returns; otherwise the outcome (the exception
  raised, or the returned value) with the state at that moment.
  The new block keeps the caller's list of transactions; lists are values here, so an
  append to that list by its owner after the call counts as a change of the stored block
  made from outside.
\<close>

definition add_block ::
  "ext \<Rightarrow> transaction list \<Rightarrow> ref list \<Rightarrow> nat \<Rightarrow> pyfloat \<Rightarrow> state \<Rightarrow> ((error + pyval) \<times> state) option" where
  "add_block E txs miner_wallets rnd now s =
     (if chain (bc s) = [] then Some (Inl IndexError, s)
      else if miner_wallets = [] then Some (Inl IndexError, s)
      else
        (case sum_fees E s 0 txs of
           Inl e \<Rightarrow> Some (Inl e, s)
         | Inr total_fees \<Rightarrow>
             (let prev = hash (last (chain (bc s)));
                  miner_ref = miner_wallets ! (rnd mod length miner_wallets);
                  new_block = Block_init (length (chain (bc s))) txs prev (bc_difficulty (bc s))
                                (Some (public_key (heap s miner_ref))) now
              in (case mine_block E new_block of
                    None \<Rightarrow> None
                  | Some (mined, h) \<Rightarrow>
                      Some (update_balances E txs
                              (add_balance miner_ref (float_add (reward (bc s)) total_fees)
                                 (s\<lparr>bc := (bc s)\<lparr>chain := chain (bc s) @ [mined]\<rparr>\<rparr>)))))))"

text \<open>\<open>for i in range(1, len(self.chain))\<close>, returning at the first mismatch.\<close>

fun chain_loop :: "ext \<Rightarrow> block list \<Rightarrow> nat list \<Rightarrow> bool" where
  "chain_loop E c [] = True"
| "chain_loop E c (i # is) =
     (if hash (c ! i) \<noteq> Some (calculate_hash E (c ! i)) then False
      else if previous_hash (c ! i) \<noteq> hash (c ! (i - 1)) then False
      else chain_loop E c is)"

definition is_chain_valid :: "ext \<Rightarrow> blockchain \<Rightarrow> bool" where
  "is_chain_valid E B = chain_loop E (chain B) [1 ..< length (chain B)]"

section \<open>Pool\<close>

record pool =
  pool_transactions :: "transaction list"

definition Pool_init :: pool where
  "Pool_init = \<lparr>pool_transactions = []\<rparr>"

text \<open>\<open>add_transaction\<close> has no \<open>return\<close> statement: its value is \<open>None\<close> on every path.\<close>

definition add_transaction :: "transaction \<Rightarrow> wallet \<Rightarrow> pool \<Rightarrow> pyval \<times> pool" where
  "add_transaction t sender_wallet p =
     (if 0 < amount t \<and> sender_public_key t \<noteq> recipient t
      then (if float_add (amount t) (fee t) \<le> balance sender_wallet
            then (PyNone, p\<lparr>pool_transactions := pool_transactions p @ [t]\<rparr>)
            else (PyNone, p))
      else (PyNone, p))"

definition get_transactions :: "pool \<Rightarrow> transaction list" where
  "get_transactions p = pool_transactions p"

definition clear_transactions :: "pool \<Rightarrow> pool" where
  "clear_transactions p = p\<lparr>pool_transactions := []\<rparr>"

section \<open>Ledgers built by the program\<close>

text \<open>
  The states obtained from \<open>initialize()\<close> on a new \<open>Blockchain\<close> by registering wallets,
  by successful calls of \<open>add_block\<close>, and by callers creating wallets or touching wallet
  objects; stored blocks are changed by the program only.
\<close>

inductive reachable :: "ext \<Rightarrow> state \<Rightarrow> bool" for E :: ext where
  init: "initialize E now (Blockchain_init d r) = Some B \<Longrightarrow> reachable E \<lparr>heap = h, bc = B\<rparr>"
| register: "reachable E s \<Longrightarrow> reachable E (register_wallet E a s)"
| objects: "reachable E s \<Longrightarrow> reachable E (s\<lparr>heap := h\<rparr>)"
| add: "reachable E s \<Longrightarrow> add_block E txs miner_wallets rnd now s = Some (Inr v, s') \<Longrightarrow>
          reachable E s'"

section \<open>Properties of the mining loop\<close>

text \<open>What holds of a result \<open>y\<close> of the loop started on \<open>b\<close> with prefix \<open>p\<close>.\<close>

definition mine_post :: "ext \<Rightarrow> string \<Rightarrow> block \<Rightarrow> block \<times> string \<Rightarrow> bool" where
  "mine_post E p b y \<longleftrightarrow>
     fst y = b\<lparr>nonce := nonce (fst y), hash := Some (snd y)\<rparr> \<and>
     nonce b \<le> nonce (fst y) \<and>
     snd y = calculate_hash E (fst y) \<and>
     startswith (snd y) p \<and>
     (\<forall>n. nonce b \<le> n \<and> n < nonce (fst y) \<longrightarrow>
          \<not> startswith (calculate_hash E (b\<lparr>nonce := n\<rparr>)) p)"

section \<open>Assumptions on the libraries\<close>

text \<open>
  ECDSA as the claims assume it: a signature made with a private key over a payload
  verifies over that payload under exactly the matching public key.
\<close>

definition ecdsa_correct :: "ext \<Rightarrow> bool" where
  "ecdsa_correct E \<longleftrightarrow>
     (\<forall>sk data k pk.
        ecdsa_verify E pk (dss_reencode E (ecdsa_sign E sk data k)) data = (pk = public_key_of E sk))"


section \<open>Changing a stored field\<close>


definition map_tx :: "nat \<Rightarrow> (transaction \<Rightarrow> transaction) \<Rightarrow> block \<Rightarrow> block" where
  "map_tx j f b =
     (if j < length (transactions b)
      then b\<lparr>transactions := (transactions b)[j := f (transactions b ! j)]\<rparr>
      else b)"





section \<open>The balance update as the specification words it\<close>

text \<open>A transaction passes \<open>is_valid\<close> against its resolved sender.\<close>

definition spec_valid :: "ext \<Rightarrow> state \<Rightarrow> transaction \<Rightarrow> bool" where
  "spec_valid E s t =
     (case find_wallet_by_public_key E (bc s) (sender_public_key t) of
        None \<Rightarrow> False
      | Some a \<Rightarrow> verify_signature E (heap s a) (dumps_str E (to_dict E t)) (signature t))"

text \<open>The sum of the fees of the transactions that pass.\<close>

definition spec_total_fees :: "ext \<Rightarrow> state \<Rightarrow> transaction list \<Rightarrow> pyfloat" where
  "spec_total_fees E s txs = foldl float_add 0 (map fee (filter (spec_valid E s) txs))"

definition spec_credit :: "ref \<Rightarrow> pyfloat \<Rightarrow> (ref \<Rightarrow> wallet) \<Rightarrow> (ref \<Rightarrow> wallet)" where
  "spec_credit a x h = h(a := (h a)\<lparr>balance := float_add (balance (h a)) x\<rparr>)"

definition spec_debit :: "ref \<Rightarrow> pyfloat \<Rightarrow> (ref \<Rightarrow> wallet) \<Rightarrow> (ref \<Rightarrow> wallet)" where
  "spec_debit a x h = h(a := (h a)\<lparr>balance := float_sub (balance (h a)) x\<rparr>)"

text \<open>
  Debit the registered sender by amount + fee, then credit the recipient, if registered,
  by the amount.
\<close>

definition spec_transfer :: "ext \<Rightarrow> blockchain \<Rightarrow> (ref \<Rightarrow> wallet) \<Rightarrow> transaction \<Rightarrow> (ref \<Rightarrow> wallet)" where
  "spec_transfer E B h t =
     (let h1 = (case find_wallet_by_public_key E B (sender_public_key t) of
                  Some a \<Rightarrow> spec_debit a (float_add (amount t) (fee t)) h
                | None \<Rightarrow> h)
      in case find_wallet_by_public_key E B (recipient t) of
           Some r \<Rightarrow> spec_credit r (amount t) h1
         | None \<Rightarrow> h1)"

section \<open>A concrete instance of the libraries\<close>

text \<open>
  A small instance of the external functions on which the program can be run: texts are
  self-delimiting encodings, the digest prefixes its input with zeros when the encoded nonce
  is 2, and a signature names the public key and the payload.
\<close>

fun e_nat :: "nat \<Rightarrow> string \<Rightarrow> string" where
  "e_nat 0 r = CHR ''0'' # r"
| "e_nat (Suc n) r = CHR ''1'' # e_nat n r"

fun e_str :: "string \<Rightarrow> string \<Rightarrow> string" where
  "e_str [] r = CHR ''0'' # r"
| "e_str (c # s) r = CHR ''1'' # c # e_str s r"

fun e_strs :: "string list \<Rightarrow> string \<Rightarrow> string" where
  "e_strs [] r = CHR ''0'' # r"
| "e_strs (s # ss) r = CHR ''1'' # e_str s (e_strs ss r)"

fun e_opt :: "string option \<Rightarrow> string \<Rightarrow> string" where
  "e_opt None r = CHR ''0'' # r"
| "e_opt (Some s) r = CHR ''1'' # e_str s r"

definition e_int :: "int \<Rightarrow> string \<Rightarrow> string" where
  "e_int i r = (if i < 0 then CHR ''-'' else CHR ''+'') # e_nat (nat \<bar>i\<bar>) r"

definition e_rat :: "rat \<Rightarrow> string \<Rightarrow> string" where
  "e_rat x r = e_int (fst (quotient_of x)) (e_int (snd (quotient_of x)) r)"

definition toy_dumps_tx :: "tx_dict \<Rightarrow> string" where
  "toy_dumps_tx d =
     e_str (d_sender_public_key d) (e_str (d_recipient d)
       (e_rat (d_amount d) (e_rat (d_fee d) (e_rat (d_timestamp d) []))))"

definition toy_dumps_block :: "block_dict \<Rightarrow> string" where
  "toy_dumps_block d =
     e_nat (d_nonce d) (e_nat (d_index d) (e_rat (d_block_timestamp d)
       (e_strs (d_transactions d) (e_opt (d_previous_hash d) (e_str (d_miner d) [])))))"

definition toy_sha :: "string \<Rightarrow> string" where
  "toy_sha s = (if take 3 s = ''110'' then ''0000'' else ''f'') @ s"

definition toy_ext :: ext where
  "toy_ext =
     \<lparr>public_key_of = Suc,
      public_bytes = (\<lambda>k. replicate k CHR ''k''),
      ecdsa_sign = (\<lambda>sk data k. replicate (Suc sk) CHR ''s'' @ CHR ''|'' # data),
      dss_reencode = (\<lambda>sg. sg),
      ecdsa_verify = (\<lambda>pk sg data. sg = replicate pk CHR ''s'' @ CHR ''|'' # data),
      dumps_tx = toy_dumps_tx,
      dumps_str = (\<lambda>s. s),
      dumps_block = toy_dumps_block,
      sha256_hexdigest = toy_sha\<rparr>"

text \<open>
  A run on that instance: a ledger of difficulty 2 and reward 50, wallet objects 2 and 3
  registered with balance 0, and an empty block mined with wallet 2 as the only candidate.
\<close>

definition demo_wallet :: "ref \<Rightarrow> wallet" where
  "demo_wallet a = Wallet_init toy_ext ''w'' a"

definition demo_genesis :: blockchain where
  "demo_genesis = the (initialize toy_ext 0 (Blockchain_init 2 50))"

definition demo_s0 :: state where
  "demo_s0 = register_wallet toy_ext 3 (register_wallet toy_ext 2 \<lparr>heap = demo_wallet, bc = demo_genesis\<rparr>)"

definition demo_s1 :: state where
  "demo_s1 = snd (the (add_block toy_ext [] [2] 0 1 demo_s0))"




text \<open>
  Instead, wallet 2 (holding 50) signs two transactions of 30 each; both are offered to a
  new pool before any block is mined, and the pool's content is mined in one block.
\<close>

definition over_tx1 :: transaction where
  "over_tx1 = Transaction_init toy_ext (heap demo_s1 2) (public_key (heap demo_s1 3)) 30 2 0"

definition over_tx2 :: transaction where
  "over_tx2 = Transaction_init toy_ext (heap demo_s1 2) (public_key (heap demo_s1 3)) 30 3 1"

definition over_pool :: pool where
  "over_pool =
     snd (add_transaction over_tx2 (heap demo_s1 2)
            (snd (add_transaction over_tx1 (heap demo_s1 2) Pool_init)))"

definition over_s2 :: state where
  "over_s2 = snd (the (add_block toy_ext (get_transactions over_pool) [3] 0 4 demo_s1))"

section \<open>Failing calls\<close>

text \<open>
  C7.  Calling \<open>add_block\<close> with an empty list of candidate miners ends in an error
  (\<open>random.choice\<close> raises on the empty list, or the read of the last block does on an
  empty chain), and the state at that moment is the state before the call: the chain, every
  stored block and every wallet balance are unchanged.
\<close>

theorem add_block_no_miner:
  "(add_block E txs [] rnd now s = Some (Inl IndexError, s))"
  by (simp add: add_block_def)

section \<open>Sealing a block\<close>

lemma calculate_hash_hash_update [simp]:
  "calculate_hash E (b\<lparr>hash := x\<rparr>) = calculate_hash E b"
  by (simp add: calculate_hash_def block_data_def)

lemma calculate_hash_difficulty_update [simp]:
  "calculate_hash E (b\<lparr>difficulty := x\<rparr>) = calculate_hash E b"
  by (simp add: calculate_hash_def block_data_def)

lemma mine_post_stop:
  "startswith (calculate_hash E b) p \<Longrightarrow>
     mine_post E p b (b\<lparr>hash := Some (calculate_hash E b)\<rparr>, calculate_hash E b)"
  by (auto simp add: mine_post_def)

lemma mine_post_step:
  assumes no: "\<not> startswith (calculate_hash E b) p"
    and ih: "mine_post E p (b\<lparr>hash := Some (calculate_hash E b), nonce := nonce b + 1\<rparr>) y"
  shows "mine_post E p b y"
proof -
  let ?b2 = "b\<lparr>hash := Some (calculate_hash E b), nonce := nonce b + 1\<rparr>"
  from ih have
    a: "fst y = ?b2\<lparr>nonce := nonce (fst y), hash := Some (snd y)\<rparr>" and
    b: "nonce ?b2 \<le> nonce (fst y)" and
    c: "snd y = calculate_hash E (fst y)" and
    d: "startswith (snd y) p" and
    e: "\<forall>n. nonce ?b2 \<le> n \<and> n < nonce (fst y) \<longrightarrow>
           \<not> startswith (calculate_hash E (?b2\<lparr>nonce := n\<rparr>)) p"
    unfolding mine_post_def by blast+
  have a': "fst y = b\<lparr>nonce := nonce (fst y), hash := Some (snd y)\<rparr>"
    using a by simp
  have b': "nonce b \<le> nonce (fst y)" using b by simp
  have e': "\<not> startswith (calculate_hash E (b\<lparr>nonce := n\<rparr>)) p"
    if n: "nonce b \<le> n" "n < nonce (fst y)" for n
  proof (cases "n = nonce b")
    case True
    then show ?thesis using no by simp
  next
    case neq: False
    with n have "nonce ?b2 \<le> n \<and> n < nonce (fst y)" by simp
    with e have "\<not> startswith (calculate_hash E (?b2\<lparr>nonce := n\<rparr>)) p" by blast
    moreover have "calculate_hash E (?b2\<lparr>nonce := n\<rparr>) = calculate_hash E (b\<lparr>nonce := n\<rparr>)"
      by (simp add: calculate_hash_def block_data_def)
    ultimately show ?thesis by simp
  qed
  show ?thesis unfolding mine_post_def using a' b' c d e' by blast
qed

lemma mine_loop_sound:
  assumes "mine_loop E p b = Some y"
  shows "mine_post E p b y"
proof (rule mine_loop.raw_induct [where P = mine_post, OF _ assms])
  fix loop E p b y
  assume ih: "\<And>E p b y. loop E p b = Some y \<Longrightarrow> mine_post E p b y"
    and eq: "(if startswith (calculate_hash E b) p
              then Some (b\<lparr>hash := Some (calculate_hash E b)\<rparr>, calculate_hash E b)
              else loop E p (b\<lparr>hash := Some (calculate_hash E b), nonce := nonce b + 1\<rparr>)) = Some y"
  show "mine_post E p b y"
  proof (cases "startswith (calculate_hash E b) p")
    case True
    with eq have "y = (b\<lparr>hash := Some (calculate_hash E b)\<rparr>, calculate_hash E b)" by simp
    with True show ?thesis by (simp only: mine_post_stop)
  next
    case False
    with eq have "loop E p (b\<lparr>hash := Some (calculate_hash E b), nonce := nonce b + 1\<rparr>) = Some y"
      by simp
    from mine_post_step [OF False ih [OF this]] show ?thesis .
  qed
qed

text \<open>The loop returns as soon as some nonce from the current one on gives a matching digest.\<close>

lemma mine_loop_returns_aux:
  "N - nonce b = k \<Longrightarrow> nonce b \<le> N \<Longrightarrow> startswith (calculate_hash E (b\<lparr>nonce := N\<rparr>)) p \<Longrightarrow>
     \<exists>y. mine_loop E p b = Some y"
proof (induction k arbitrary: b)
  case 0
  then have "b\<lparr>nonce := N\<rparr> = b" by simp
  with 0(3) have "startswith (calculate_hash E b) p" by simp
  then show ?case by (subst mine_loop.simps) simp
next
  case (Suc k)
  show ?case
  proof (cases "startswith (calculate_hash E b) p")
    case True
    then show ?thesis by (subst mine_loop.simps) simp
  next
    case False
    let ?b2 = "b\<lparr>hash := Some (calculate_hash E b), nonce := nonce b + 1\<rparr>"
    have "?b2\<lparr>nonce := N\<rparr> = (b\<lparr>nonce := N\<rparr>)\<lparr>hash := Some (calculate_hash E b)\<rparr>" by simp
    then have g: "startswith (calculate_hash E (?b2\<lparr>nonce := N\<rparr>)) p"
      using Suc.prems(3) by (simp only: calculate_hash_hash_update)
    have "N - nonce ?b2 = k" "nonce ?b2 \<le> N" using Suc.prems by simp_all
    from Suc.IH [OF this g] obtain y where "mine_loop E p ?b2 = Some y" by blast
    then show ?thesis using False by (subst mine_loop.simps) simp
  qed
qed

lemma mine_loop_returns:
  "nonce b \<le> N \<Longrightarrow> startswith (calculate_hash E (b\<lparr>nonce := N\<rparr>)) p \<Longrightarrow>
     \<exists>y. mine_loop E p b = Some y"
  using mine_loop_returns_aux [of N b "N - nonce b" E p] by simp

lemma mine_block_sound:
  "mine_block E (Block_init i txs prev d m now) = Some (b', h) \<Longrightarrow>
     hash b' = Some h \<and>
     h = calculate_hash E b' \<and>
     take (nat (difficulty b')) h = replicate (nat (difficulty b')) CHR ''0'' \<and>
     (\<forall>n < nonce b'.
         \<not> startswith (calculate_hash E (b'\<lparr>nonce := n\<rparr>)) (replicate (nat (difficulty b')) CHR ''0'')) \<and>
     b' = (Block_init i txs prev d m now)\<lparr>nonce := nonce b', hash := Some h\<rparr>"
proof -
  let ?b = "Block_init i txs prev d m now"
  let ?p = "replicate (nat d) CHR ''0''"
  assume "mine_block E ?b = Some (b', h)"
  then have m: "mine_loop E ?p ?b = Some (b', h)"
    by (simp add: mine_block_def Block_init_def)
  note s = mine_loop_sound [OF m, unfolded mine_post_def fst_conv snd_conv]
  from s have
    a: "b' = ?b\<lparr>nonce := nonce b', hash := Some h\<rparr>" and
    c: "h = calculate_hash E b'" and
    d: "startswith h ?p" and
    e: "\<forall>n. nonce ?b \<le> n \<and> n < nonce b' \<longrightarrow> \<not> startswith (calculate_hash E (?b\<lparr>nonce := n\<rparr>)) ?p"
    by blast+
  have dd: "difficulty b' = d" by (subst a) (simp add: Block_init_def)
  have hh: "hash b' = Some h" by (subst a) simp
  have least: "\<not> startswith (calculate_hash E (b'\<lparr>nonce := n\<rparr>)) ?p" if "n < nonce b'" for n
  proof -
    have "b'\<lparr>nonce := n\<rparr> = (?b\<lparr>nonce := n\<rparr>)\<lparr>hash := Some h\<rparr>"
      by (subst a) simp
    moreover have "\<not> startswith (calculate_hash E (?b\<lparr>nonce := n\<rparr>)) ?p"
      using e that by (simp add: Block_init_def)
    ultimately show ?thesis by (simp only: calculate_hash_hash_update) simp
  qed
  from d have "take (nat d) h = ?p" by (simp add: startswith_def)
  with a c hh least show ?thesis by (simp only: dd) blast
qed

lemma mine_block_returns:
  assumes "startswith (calculate_hash E ((Block_init i txs prev d m now)\<lparr>nonce := n\<rparr>))
             (replicate (nat d) CHR ''0'')"
  shows "\<exists>y. mine_block E (Block_init i txs prev d m now) = Some y"
proof -
  have "nonce (Block_init i txs prev d m now) \<le> n" by (simp add: Block_init_def)
  from mine_loop_returns [OF this assms] show ?thesis
    by (simp add: mine_block_def Block_init_def)
qed

text \<open>
  C5.  When \<open>mine_block\<close> returns on a block as the constructor makes it (nonce 0, no
  hash), the returned value is the stored hash, the stored hash is \<open>calculate_hash\<close> of the
  final block, its text starts with \<open>difficulty\<close> characters \<open>0\<close>, no smaller nonce gives a
  digest with that prefix, and no other field has changed.  And it does return whenever
  some nonce gives a digest with that prefix.
\<close>

theorem mine_block_sealed:
  "(mine_block E (Block_init i txs prev d m now) = Some (b', h) \<longrightarrow>
      hash b' = Some h \<and>
      h = calculate_hash E b' \<and>
      take (nat (difficulty b')) h = replicate (nat (difficulty b')) CHR ''0'' \<and>
      (\<forall>n < nonce b'.
          \<not> startswith (calculate_hash E (b'\<lparr>nonce := n\<rparr>))
               (replicate (nat (difficulty b')) CHR ''0'')) \<and>
      b' = (Block_init i txs prev d m now)\<lparr>nonce := nonce b', hash := Some h\<rparr>) \<and>
   (startswith (calculate_hash E ((Block_init i txs prev d m now)\<lparr>nonce := k\<rparr>))
        (replicate (nat d) CHR ''0'') \<longrightarrow>
      (\<exists>y. mine_block E (Block_init i txs prev d m now) = Some y))"
proof (intro conjI impI)
  assume "mine_block E (Block_init i txs prev d m now) = Some (b', h)"
  note s = mine_block_sound [OF this]
  from s show "hash b' = Some h" by blast
  from s show "h = calculate_hash E b'" by blast
  from s show "take (nat (difficulty b')) h = replicate (nat (difficulty b')) CHR ''0''" by blast
  from s show "\<forall>n < nonce b'.
          \<not> startswith (calculate_hash E (b'\<lparr>nonce := n\<rparr>))
               (replicate (nat (difficulty b')) CHR ''0'')" by blast
  from s show "b' = (Block_init i txs prev d m now)\<lparr>nonce := nonce b', hash := Some h\<rparr>" by blast
next
  assume "startswith (calculate_hash E ((Block_init i txs prev d m now)\<lparr>nonce := k\<rparr>))
            (replicate (nat d) CHR ''0'')"
  then show "\<exists>y. mine_block E (Block_init i txs prev d m now) = Some y"
    by (rule mine_block_returns)
qed

section \<open>Facts about the concrete instance\<close>

lemma toy_fields [simp]:
  "public_key_of toy_ext = Suc"
  "public_bytes toy_ext = (\<lambda>k. replicate k CHR ''k'')"
  "ecdsa_sign toy_ext = (\<lambda>sk data k. replicate (Suc sk) CHR ''s'' @ CHR ''|'' # data)"
  "dss_reencode toy_ext = (\<lambda>sg. sg)"
  "ecdsa_verify toy_ext = (\<lambda>pk sg data. sg = replicate pk CHR ''s'' @ CHR ''|'' # data)"
  "dumps_tx toy_ext = toy_dumps_tx"
  "dumps_str toy_ext = (\<lambda>s. s)"
  "dumps_block toy_ext = toy_dumps_block"
  "sha256_hexdigest toy_ext = toy_sha"
  by (simp_all add: toy_ext_def)

lemma take3_e_nat: "take 3 (e_nat n r) = ''110'' \<longleftrightarrow> n = 2"
proof (cases n)
  case 0
  then show ?thesis by simp
next
  case (Suc m)
  note n = this
  show ?thesis
  proof (cases m)
    case 0
    with n show ?thesis by (simp add: take_Cons')
  next
    case (Suc k)
    with n show ?thesis by (cases k) (simp_all add: take_Cons')
  qed
qed

lemma zeros_prefix:
  "0 < k \<Longrightarrow> k \<le> 4 \<Longrightarrow>
     take k (CHR ''0'' # CHR ''0'' # CHR ''0'' # CHR ''0'' # s) = replicate k CHR ''0''"
proof -
  assume "0 < k" "k \<le> 4"
  then have "k = 1 \<or> k = 2 \<or> k = 3 \<or> k = 4" by arith
  then show ?thesis by (auto simp add: eval_nat_numeral)
qed

lemma toy_good:
  assumes "0 < k" "k \<le> 4"
  shows "startswith (toy_sha (e_nat n r)) (replicate k CHR ''0'') \<longleftrightarrow> n = 2"
proof (cases "n = 2")
  case True
  then have "toy_sha (e_nat n r) = ''0000'' @ e_nat n r"
    by (simp only: toy_sha_def take3_e_nat) simp
  with True assms show ?thesis by (simp add: startswith_def zeros_prefix)
next
  case False
  then have "toy_sha (e_nat n r) = ''f'' @ e_nat n r"
    by (simp only: toy_sha_def take3_e_nat) simp
  moreover obtain j where "k = Suc j" using assms(1) by (cases k) auto
  ultimately show ?thesis using False by (simp add: startswith_def)
qed

lemma toy_calculate_hash:
  "calculate_hash toy_ext b = toy_sha (e_nat (nonce b) (e_nat (index b) (e_rat (timestamp b)
       (e_strs (map (to_dict toy_ext) (transactions b)) (e_opt (previous_hash b)
          (e_str (case miner b of Some k \<Rightarrow> replicate k CHR ''k'' | None \<Rightarrow> ''GENESIS_BLOCK'') []))))))"
  by (simp add: calculate_hash_def block_data_def toy_dumps_block_def split: option.split)

lemma toy_good_block:
  "0 < k \<Longrightarrow> k \<le> 4 \<Longrightarrow>
     startswith (calculate_hash toy_ext b) (replicate k CHR ''0'') \<longleftrightarrow> nonce b = 2"
  by (simp only: toy_calculate_hash toy_good)

lemma toy_mine_loop:
  assumes k: "0 < k" "k \<le> 4" and n: "nonce b = 0"
  shows "mine_loop toy_ext (replicate k CHR ''0'') b =
           Some (b\<lparr>nonce := 2, hash := Some (calculate_hash toy_ext (b\<lparr>nonce := 2\<rparr>))\<rparr>,
                 calculate_hash toy_ext (b\<lparr>nonce := 2\<rparr>))"
proof -
  let ?p = "replicate k CHR ''0''"
  have "startswith (calculate_hash toy_ext (b\<lparr>nonce := 2\<rparr>)) ?p"
    by (simp add: toy_good_block [OF k])
  with mine_loop_returns [of b 2 toy_ext ?p] n
  obtain y where y: "mine_loop toy_ext ?p b = Some y" by auto
  from mine_loop_sound [OF y] have
    a: "fst y = b\<lparr>nonce := nonce (fst y), hash := Some (snd y)\<rparr>" and
    c: "snd y = calculate_hash toy_ext (fst y)" and
    d: "startswith (snd y) ?p"
    unfolding mine_post_def by blast+
  from c d have two: "nonce (fst y) = 2" by (simp add: toy_good_block [OF k])
  have "calculate_hash toy_ext (fst y) = calculate_hash toy_ext (b\<lparr>nonce := 2\<rparr>)"
    by (subst a) (simp add: two calculate_hash_def block_data_def)
  with c have e: "snd y = calculate_hash toy_ext (b\<lparr>nonce := 2\<rparr>)" by simp
  from a have "fst y = b\<lparr>nonce := 2, hash := Some (calculate_hash toy_ext (b\<lparr>nonce := 2\<rparr>))\<rparr>"
    by (simp only: two e)
  with e have "y = (b\<lparr>nonce := 2, hash := Some (calculate_hash toy_ext (b\<lparr>nonce := 2\<rparr>))\<rparr>,
                 calculate_hash toy_ext (b\<lparr>nonce := 2\<rparr>))"
    by (simp add: prod_eq_iff)
  with y show ?thesis by simp
qed

lemma toy_mine_block:
  assumes "0 < difficulty b" "difficulty b \<le> 4" "nonce b = 0"
  shows "mine_block toy_ext b =
           Some (b\<lparr>nonce := 2, hash := Some (calculate_hash toy_ext (b\<lparr>nonce := 2\<rparr>))\<rparr>,
                 calculate_hash toy_ext (b\<lparr>nonce := 2\<rparr>))"
proof -
  have "0 < nat (difficulty b)" "nat (difficulty b) \<le> 4" using assms by simp_all
  from toy_mine_loop [OF this assms(3)] show ?thesis by (simp add: mine_block_def)
qed

theorem mine_block_sealed_witness:
  "mine_block toy_ext (Block_init 1 [] (Some ''ab'') 2 (Some 5) 0) =
     Some ((Block_init 1 [] (Some ''ab'') 2 (Some 5) 0)
             \<lparr>nonce := 2,
              hash := Some (calculate_hash toy_ext ((Block_init 1 [] (Some ''ab'') 2 (Some 5) 0)\<lparr>nonce := 2\<rparr>))\<rparr>,
           calculate_hash toy_ext ((Block_init 1 [] (Some ''ab'') 2 (Some 5) 0)\<lparr>nonce := 2\<rparr>)) \<and>
   take 2 (calculate_hash toy_ext ((Block_init 1 [] (Some ''ab'') 2 (Some 5) 0)\<lparr>nonce := 2\<rparr>)) = ''00'' \<and>
   \<not> startswith (calculate_hash toy_ext ((Block_init 1 [] (Some ''ab'') 2 (Some 5) 0)\<lparr>nonce := 1\<rparr>)) ''00''"
proof -
  let ?b = "Block_init 1 [] (Some ''ab'') 2 (Some 5) 0"
  have m: "mine_block toy_ext ?b =
     Some (?b\<lparr>nonce := 2, hash := Some (calculate_hash toy_ext (?b\<lparr>nonce := 2\<rparr>))\<rparr>,
           calculate_hash toy_ext (?b\<lparr>nonce := 2\<rparr>))"
    by (rule toy_mine_block) (simp_all add: Block_init_def)
  have g: "\<not> startswith (calculate_hash toy_ext (?b\<lparr>nonce := 1\<rparr>)) ''00''"
    using toy_good_block [of 2 "?b\<lparr>nonce := 1\<rparr>"] by (simp add: eval_nat_numeral)
  from mine_block_sealed [THEN conjunct1, rule_format, OF m]
  have "take 2 (calculate_hash toy_ext (?b\<lparr>nonce := 2\<rparr>)) = ''00''"
    by (simp add: Block_init_def eval_nat_numeral)
  with m g show ?thesis by (simp only:) simp
qed

section \<open>Chain validity\<close>

lemma chain_loop_iff:
  "chain_loop E c is \<longleftrightarrow>
     (\<forall>i \<in> set is. hash (c ! i) = Some (calculate_hash E (c ! i)) \<and>
                    previous_hash (c ! i) = hash (c ! (i - 1)))"
  by (induction "is") auto

lemma is_chain_valid_iff:
  "is_chain_valid E B \<longleftrightarrow>
     (\<forall>i. 0 < i \<and> i < length (chain B) \<longrightarrow>
          hash (chain B ! i) = Some (calculate_hash E (chain B ! i)) \<and>
          previous_hash (chain B ! i) = hash (chain B ! (i - 1)))"
  by (auto simp add: is_chain_valid_def chain_loop_iff)

lemma bc_add_balance [simp]: "bc (add_balance a x s) = bc s"
  by (simp add: add_balance_def)

lemma bc_sub_balance [simp]: "bc (sub_balance a x s) = bc s"
  by (simp add: sub_balance_def)

lemma bc_apply_transaction [simp]: "bc (apply_transaction E t s) = bc s"
  by (simp add: apply_transaction_def Let_def split: option.split)

lemma bc_update_balances [simp]: "bc (snd (update_balances E txs s)) = bc s"
  by (induction txs arbitrary: s) (simp_all split: sum.split)

lemma add_block_returned:
  assumes "add_block E txs miner_wallets rnd now s = Some (Inr v, s')"
  shows "\<exists>mined h k.
           mine_block E (Block_init (length (chain (bc s))) txs (hash (last (chain (bc s))))
                           (bc_difficulty (bc s)) (Some k) now) = Some (mined, h) \<and>
           bc s' = (bc s)\<lparr>chain := chain (bc s) @ [mined]\<rparr> \<and> chain (bc s) \<noteq> []"
proof -
  from assms have ne: "chain (bc s) \<noteq> []" "miner_wallets \<noteq> []"
    by (auto simp add: add_block_def split: if_splits)
  from assms ne obtain tf where tf: "sum_fees E s 0 txs = Inr tf"
    by (cases "sum_fees E s 0 txs") (auto simp add: add_block_def)
  let ?m = "miner_wallets ! (rnd mod length miner_wallets)"
  let ?b = "Block_init (length (chain (bc s))) txs (hash (last (chain (bc s))))
              (bc_difficulty (bc s)) (Some (public_key (heap s ?m))) now"
  from assms ne tf obtain mined h where m: "mine_block E ?b = Some (mined, h)"
    by (cases "mine_block E ?b") (auto simp add: add_block_def Let_def)
  from assms ne tf m have
    "update_balances E txs (add_balance ?m (float_add (reward (bc s)) tf)
        (s\<lparr>bc := (bc s)\<lparr>chain := chain (bc s) @ [mined]\<rparr>\<rparr>)) = (Inr v, s')"
    by (simp add: add_block_def Let_def)
  then have "bc s' = (bc s)\<lparr>chain := chain (bc s) @ [mined]\<rparr>"
    using bc_update_balances [of E txs "add_balance ?m (float_add (reward (bc s)) tf)
        (s\<lparr>bc := (bc s)\<lparr>chain := chain (bc s) @ [mined]\<rparr>\<rparr>)"] by simp
  with m ne show ?thesis by blast
qed

lemma mine_block_fields:
  assumes "mine_block E b = Some (b', h)"
  shows "hash b' = Some (calculate_hash E b')" "previous_hash b' = previous_hash b"
proof -
  from assms have "mine_post E (replicate (nat (difficulty b)) CHR ''0'') b (b', h)"
    by (simp add: mine_block_def mine_loop_sound)
  then have a: "b' = b\<lparr>nonce := nonce b', hash := Some h\<rparr>" and c: "h = calculate_hash E b'"
    unfolding mine_post_def fst_conv snd_conv by blast+
  show "hash b' = Some (calculate_hash E b')" by (subst a) (simp add: c [symmetric])
  show "previous_hash b' = previous_hash b" by (subst a) simp
qed

lemma reachable_invariant:
  "reachable E s \<Longrightarrow>
     chain (bc s) \<noteq> [] \<and>
     (\<forall>i < length (chain (bc s)).
         hash (chain (bc s) ! i) = Some (calculate_hash E (chain (bc s) ! i))) \<and>
     (\<forall>i. 0 < i \<and> i < length (chain (bc s)) \<longrightarrow>
         previous_hash (chain (bc s) ! i) = hash (chain (bc s) ! (i - 1)))"
proof (induction rule: reachable.induct)
  case (init now d r B h)
  then obtain g x where m: "mine_block E (Block_init 0 [] (Some ''0'') d None now) = Some (g, x)"
    and B: "B = (Blockchain_init d r)\<lparr>chain := [g]\<rparr>"
    by (auto simp add: initialize_def create_genesis_block_def Blockchain_init_def
          split: option.splits)
  from mine_block_fields(1) [OF m] show ?case by (simp add: B)
next
  case (register s a)
  then show ?case by (simp add: register_wallet_def)
next
  case (objects s h)
  then show ?case by simp
next
  case (add s txs miner_wallets rnd now v s')
  from add_block_returned [OF add.hyps(2)] obtain mined h k where
    m: "mine_block E (Block_init (length (chain (bc s))) txs (hash (last (chain (bc s))))
                           (bc_difficulty (bc s)) (Some k) now) = Some (mined, h)" and
    b: "bc s' = (bc s)\<lparr>chain := chain (bc s) @ [mined]\<rparr>" and ne: "chain (bc s) \<noteq> []"
    by blast
  let ?c = "chain (bc s)"
  have c': "chain (bc s') = ?c @ [mined]" by (simp add: b)
  have h1: "hash mined = Some (calculate_hash E mined)" by (rule mine_block_fields(1) [OF m])
  have h2: "previous_hash mined = hash (last ?c)"
    using mine_block_fields(2) [OF m] by (simp add: Block_init_def)
  from add.IH have ih1: "\<forall>i < length ?c. hash (?c ! i) = Some (calculate_hash E (?c ! i))"
    and ih2: "\<forall>i. 0 < i \<and> i < length ?c \<longrightarrow> previous_hash (?c ! i) = hash (?c ! (i - 1))"
    by blast+
  have g1: "hash ((?c @ [mined]) ! i) = Some (calculate_hash E ((?c @ [mined]) ! i))"
    if "i < length (?c @ [mined])" for i
  proof (cases "i < length ?c")
    case True
    with ih1 show ?thesis by (simp add: nth_append)
  next
    case False
    with that have "i = length ?c" by simp
    with h1 show ?thesis by simp
  qed
  have g2: "previous_hash ((?c @ [mined]) ! i) = hash ((?c @ [mined]) ! (i - 1))"
    if "0 < i" "i < length (?c @ [mined])" for i
  proof (cases "i < length ?c")
    case True
    then have "i - 1 < length ?c" by simp
    with True ih2 that show ?thesis by (simp add: nth_append)
  next
    case False
    with that have i: "i = length ?c" by simp
    from ne have "last ?c = ?c ! (length ?c - 1)" by (simp add: last_conv_nth)
    with h2 i ne show ?thesis by (simp add: nth_append)
  qed
  from g1 g2 show ?case unfolding c' by blast
qed

text \<open>
  C1.  On every ledger built by \<open>initialize()\<close>, wallet registrations and successful
  \<open>add_block\<close> calls, \<open>is_chain_valid()\<close> returns true; and every block after the first
  carries the hash of its predecessor as \<open>previous_hash\<close> and its own recomputed digest as
  \<open>hash\<close>.
\<close>

theorem reachable_chain_valid:
  "reachable E s \<Longrightarrow>
     is_chain_valid E (bc s) \<and>
     (\<forall>i. 0 < i \<and> i < length (chain (bc s)) \<longrightarrow>
          previous_hash (chain (bc s) ! i) = hash (chain (bc s) ! (i - 1)) \<and>
          hash (chain (bc s) ! i) = Some (calculate_hash E (chain (bc s) ! i)))"
proof -
  assume "reachable E s"
  from reachable_invariant [OF this] show ?thesis
    by (simp add: is_chain_valid_iff)
qed

section \<open>Running the concrete instance\<close>

lemma add_block_mined:
  assumes "chain (bc s) \<noteq> []" "miner_wallets \<noteq> []" "sum_fees E s 0 txs = Inr tf"
    and "mine_block E (Block_init (length (chain (bc s))) txs (hash (last (chain (bc s))))
           (bc_difficulty (bc s))
           (Some (public_key (heap s (miner_wallets ! (rnd mod length miner_wallets))))) now)
         = Some (mined, h)"
  shows "add_block E txs miner_wallets rnd now s =
           Some (update_balances E txs
                   (add_balance (miner_wallets ! (rnd mod length miner_wallets))
                      (float_add (reward (bc s)) tf)
                      (s\<lparr>bc := (bc s)\<lparr>chain := chain (bc s) @ [mined]\<rparr>\<rparr>)))"
  using assms by (simp add: add_block_def Let_def)

lemma toy_add_block:
  assumes "chain (bc s) \<noteq> []" "miner_wallets \<noteq> []" "sum_fees toy_ext s 0 txs = Inr tf"
    and "0 < bc_difficulty (bc s)" "bc_difficulty (bc s) \<le> 4"
  shows "\<exists>mined. add_block toy_ext txs miner_wallets rnd now s =
           Some (update_balances toy_ext txs
                   (add_balance (miner_wallets ! (rnd mod length miner_wallets))
                      (float_add (reward (bc s)) tf)
                      (s\<lparr>bc := (bc s)\<lparr>chain := chain (bc s) @ [mined]\<rparr>\<rparr>)))"
proof -
  let ?b = "Block_init (length (chain (bc s))) txs (hash (last (chain (bc s))))
           (bc_difficulty (bc s))
           (Some (public_key (heap s (miner_wallets ! (rnd mod length miner_wallets))))) now"
  have "mine_block toy_ext ?b =
          Some (?b\<lparr>nonce := 2, hash := Some (calculate_hash toy_ext (?b\<lparr>nonce := 2\<rparr>))\<rparr>,
                calculate_hash toy_ext (?b\<lparr>nonce := 2\<rparr>))"
    by (rule toy_mine_block) (simp_all add: Block_init_def assms)
  from add_block_mined [OF assms(1-3) this] show ?thesis by blast
qed

lemma demo_genesis_mined:
  "mine_block toy_ext (Block_init 0 [] (Some ''0'') 2 None 0) =
     Some ((Block_init 0 [] (Some ''0'') 2 None 0)
             \<lparr>nonce := 2,
              hash := Some (calculate_hash toy_ext ((Block_init 0 [] (Some ''0'') 2 None 0)\<lparr>nonce := 2\<rparr>))\<rparr>,
           calculate_hash toy_ext ((Block_init 0 [] (Some ''0'') 2 None 0)\<lparr>nonce := 2\<rparr>))"
  by (rule toy_mine_block) (simp_all add: Block_init_def)

lemma demo_genesis_eq:
  "demo_genesis =
     \<lparr>chain = [(Block_init 0 [] (Some ''0'') 2 None 0)
                 \<lparr>nonce := 2,
                  hash := Some (calculate_hash toy_ext
                                  ((Block_init 0 [] (Some ''0'') 2 None 0)\<lparr>nonce := 2\<rparr>))\<rparr>],
      bc_difficulty = 2, reward = 50, wallets = Map.empty\<rparr>"
  by (simp add: demo_genesis_def initialize_def create_genesis_block_def Blockchain_init_def
        demo_genesis_mined)

lemma demo_initialize: "initialize toy_ext 0 (Blockchain_init 2 50) = Some demo_genesis"
  by (simp add: demo_genesis_eq initialize_def create_genesis_block_def Blockchain_init_def
        demo_genesis_mined)

lemma demo_genesis_fields:
  "length (chain demo_genesis) = 1" "bc_difficulty demo_genesis = 2" "reward demo_genesis = 50"
  "wallets demo_genesis = Map.empty"
  by (simp_all add: demo_genesis_eq)

lemma demo_s0_fields:
  "chain (bc demo_s0) = chain demo_genesis" "bc_difficulty (bc demo_s0) = 2"
  "reward (bc demo_s0) = 50" "heap demo_s0 = demo_wallet"
  "wallets (bc demo_s0) = [''kkk'' \<mapsto> 2, ''kkkk'' \<mapsto> 3]"
  by (simp_all add: demo_s0_def register_wallet_def demo_genesis_fields demo_wallet_def
        Wallet_init_def eval_nat_numeral)

lemma demo_reachable_s0: "reachable toy_ext demo_s0"
  unfolding demo_s0_def
  by (intro reachable.register reachable.init [OF demo_initialize])

lemma demo_add_block_s0:
  "add_block toy_ext [] [2] 0 1 demo_s0 = Some (Inr PyNone, demo_s1)"
proof -
  have ne: "chain (bc demo_s0) \<noteq> []"
    using demo_genesis_fields(1) by (auto simp add: demo_s0_fields)
  from toy_add_block [OF ne, of "[2]" "[]" 0 0 1]
  obtain mined where "add_block toy_ext [] [2] 0 1 demo_s0 =
      Some (update_balances toy_ext []
              (add_balance 2 (float_add (reward (bc demo_s0)) 0)
                 (demo_s0\<lparr>bc := (bc demo_s0)\<lparr>chain := chain (bc demo_s0) @ [mined]\<rparr>\<rparr>)))"
    by (auto simp add: demo_s0_fields)
  then show ?thesis by (simp add: demo_s1_def)
qed

lemma demo_reachable_s1: "reachable toy_ext demo_s1"
  by (rule reachable.add [OF demo_reachable_s0 demo_add_block_s0])

theorem reachable_chain_valid_witness:
  "reachable toy_ext demo_s1 \<and> is_chain_valid toy_ext (bc demo_s1)"
  using reachable_chain_valid [OF demo_reachable_s1] demo_reachable_s1 by simp

section \<open>Evaluating float arithmetic\<close>

lemma floor_rat_numeral_div [simp]:
  "\<lfloor>(numeral a :: rat) / numeral b\<rfloor> = numeral a div numeral b"
  using floor_divide_of_int_eq [of "numeral a" "numeral b", where ?'a = rat] by simp

lemma floor_rat_neg_numeral_div [simp]:
  "\<lfloor>- ((numeral a :: rat) / numeral b)\<rfloor> = - numeral a div numeral b"
  using floor_divide_of_int_eq [of "- numeral a" "numeral b", where ?'a = rat] by simp

lemma ceiling_rat_numeral_div [simp]:
  "\<lceil>(numeral a :: rat) / numeral b\<rceil> = - (- numeral a div numeral b)"
  using floor_divide_of_int_eq [of "- numeral a" "numeral b", where ?'a = rat]
  by (simp add: ceiling_def)

lemmas float_eval =
  float_add_def float_sub_def float_mul_def py_round_def fl_def fl_pos_def ilog2_def pow2_def
  round_half_even_def Let_def bitlen.simps

lemma float_add_0_0 [simp]: "float_add 0 0 = 0"
  by (simp add: float_add_def fl_def)

lemma float_50: "float_add 50 0 = 50" "float_add 0 50 = 50"
  by (simp_all add: float_eval)

lemma fl_one_twentieth: "fl (1 / 20) = 3602879701896397 / 72057594037927936"
  by (simp add: float_eval)

lemma fee_of_10: "py_round (float_mul (fl (1 / 200)) 10) 8 = fl (1 / 20)"
  by (simp add: float_eval)

lemma demo_s1_eq:
  "\<exists>mined. demo_s1 =
     add_balance 2 50 (demo_s0\<lparr>bc := (bc demo_s0)\<lparr>chain := chain (bc demo_s0) @ [mined]\<rparr>\<rparr>)"
proof -
  have ne: "chain (bc demo_s0) \<noteq> []"
    using demo_genesis_fields(1) by (auto simp add: demo_s0_fields)
  from toy_add_block [OF ne, of "[2]" "[]" 0 0 1]
  obtain mined where "add_block toy_ext [] [2] 0 1 demo_s0 =
      Some (update_balances toy_ext []
              (add_balance 2 (float_add (reward (bc demo_s0)) 0)
                 (demo_s0\<lparr>bc := (bc demo_s0)\<lparr>chain := chain (bc demo_s0) @ [mined]\<rparr>\<rparr>)))"
    by (auto simp add: demo_s0_fields)
  then have "demo_s1 = add_balance 2 50
                 (demo_s0\<lparr>bc := (bc demo_s0)\<lparr>chain := chain (bc demo_s0) @ [mined]\<rparr>\<rparr>)"
    by (simp add: demo_s1_def demo_s0_fields float_50)
  then show ?thesis by blast
qed

lemma demo_s1_fields:
  "chain (bc demo_s1) \<noteq> []" "bc_difficulty (bc demo_s1) = 2" "reward (bc demo_s1) = 50"
  "wallets (bc demo_s1) = [''kkk'' \<mapsto> 2, ''kkkk'' \<mapsto> 3]"
  "heap demo_s1 = demo_wallet(2 := (demo_wallet 2)\<lparr>balance := 50\<rparr>)"
proof -
  from demo_s1_eq obtain mined where e: "demo_s1 =
     add_balance 2 50 (demo_s0\<lparr>bc := (bc demo_s0)\<lparr>chain := chain (bc demo_s0) @ [mined]\<rparr>\<rparr>)"
    by blast
  show "chain (bc demo_s1) \<noteq> []" by (subst e) simp
  show "bc_difficulty (bc demo_s1) = 2" by (subst e) (simp add: demo_s0_fields)
  show "reward (bc demo_s1) = 50" by (subst e) (simp add: demo_s0_fields)
  show "wallets (bc demo_s1) = [''kkk'' \<mapsto> 2, ''kkkk'' \<mapsto> 3]"
    by (subst e) (simp add: demo_s0_fields)
  show "heap demo_s1 = demo_wallet(2 := (demo_wallet 2)\<lparr>balance := 50\<rparr>)"
    by (subst e) (simp add: add_balance_def demo_s0_fields demo_wallet_def Wallet_init_def float_50)
qed

section \<open>Unresolved senders\<close>

lemma is_valid_error: "is_valid E t w = Inl e \<Longrightarrow> e = AttributeError \<and> w = None"
  by (cases w) (simp_all add: is_valid_def)

lemma sum_fees_unresolved:
  "t \<in> set txs \<Longrightarrow> find_wallet_by_public_key E (bc s) (sender_public_key t) = None \<Longrightarrow>
     sum_fees E s acc txs = Inl AttributeError"
proof (induction txs arbitrary: acc)
  case Nil
  then show ?case by simp
next
  case (Cons u us)
  show ?case
  proof (cases "is_valid E u (sender_lookup E s u)")
    case (Inl e)
    with is_valid_error [OF Inl] show ?thesis by simp
  next
    case (Inr ok)
    then have "sender_lookup E s u \<noteq> None"
      by (auto simp add: is_valid_def split: option.splits)
    with Cons.prems have "t \<in> set us" by (auto simp add: sender_lookup_def)
    from Cons.IH [OF this Cons.prems(2)] Inr show ?thesis by simp
  qed
qed

text \<open>
  C3.  What the program does with a candidate transaction whose sender is not registered:
  \<open>find_wallet_by_public_key\<close> returns \<open>None\<close>, \<open>is_valid(None)\<close> raises while the fees
  are summed, and \<open>add_block\<close> ends with that exception before any block is built; the state
  is unchanged.
\<close>

theorem add_block_unresolved_sender:
  "chain (bc s) \<noteq> [] \<Longrightarrow> miner_wallets \<noteq> [] \<Longrightarrow> t \<in> set txs \<Longrightarrow>
   find_wallet_by_public_key E (bc s) (sender_public_key t) = None \<Longrightarrow>
     add_block E txs miner_wallets rnd now s = Some (Inl AttributeError, s)"
  by (simp add: add_block_def sum_fees_unresolved)

theorem add_block_unresolved_sender_witness:
  "chain (bc demo_s1) \<noteq> [] \<and>
   find_wallet_by_public_key toy_ext (bc demo_s1)
     (sender_public_key (Transaction_init toy_ext (demo_wallet 7) 4 5 2 0)) = None \<and>
   add_block toy_ext [Transaction_init toy_ext (demo_wallet 7) 4 5 2 0] [3] 0 3 demo_s1 =
     Some (Inl AttributeError, demo_s1)"
proof -
  let ?t = "Transaction_init toy_ext (demo_wallet 7) 4 5 2 0"
  have u: "find_wallet_by_public_key toy_ext (bc demo_s1) (sender_public_key ?t) = None"
    by (simp add: find_wallet_by_public_key_def demo_s1_fields Transaction_init_def Let_def
          demo_wallet_def Wallet_init_def eval_nat_numeral)
  from add_block_unresolved_sender [OF demo_s1_fields(1) _ _ u, of "[3]" "[?t]" 0 3]
  show ?thesis using u demo_s1_fields(1) by simp
qed

section \<open>Signatures\<close>

text \<open>
  C4.  Under the ECDSA assumption, a transaction made by the constructor from a wallet
  passes \<open>is_valid\<close> with a wallet exactly when that wallet holds the sender's public key:
  true with the sender's own wallet, false with any wallet of another key.
\<close>

theorem is_valid_sender_only:
  "ecdsa_correct E \<Longrightarrow>
     is_valid E (Transaction_init E ((Wallet_init E nm sk)\<lparr>balance := x\<rparr>) rcp amt now k) (Some w) =
       Inr (public_key w = public_key_of E sk)"
  by (simp add: ecdsa_correct_def is_valid_def verify_signature_def Transaction_init_def Let_def
        sign_transaction_def wallet_sign_transaction_def Wallet_init_def to_dict_def)

lemma toy_ecdsa_correct: "ecdsa_correct toy_ext"
proof -
  have "(replicate (Suc sk) CHR ''s'' @ CHR ''|'' # data = replicate pk CHR ''s'' @ CHR ''|'' # data)
          = (pk = Suc sk)" for sk pk :: nat and data :: string
  proof
    assume "replicate (Suc sk) CHR ''s'' @ CHR ''|'' # data = replicate pk CHR ''s'' @ CHR ''|'' # data"
    then have "length (replicate (Suc sk) CHR ''s'' @ CHR ''|'' # data)
                 = length (replicate pk CHR ''s'' @ CHR ''|'' # data)" by (rule arg_cong)
    then show "pk = Suc sk" by simp
  next
    assume "pk = Suc sk"
    then show "replicate (Suc sk) CHR ''s'' @ CHR ''|'' # data = replicate pk CHR ''s'' @ CHR ''|'' # data"
      by simp
  qed
  then show ?thesis unfolding ecdsa_correct_def toy_fields by blast
qed

theorem is_valid_sender_only_witness:
  "ecdsa_correct toy_ext \<and>
   is_valid toy_ext (Transaction_init toy_ext ((Wallet_init toy_ext ''a'' 1)\<lparr>balance := 50\<rparr>) 3 10 0 0)
     (Some ((Wallet_init toy_ext ''a'' 1)\<lparr>balance := 50\<rparr>)) = Inr True \<and>
   is_valid toy_ext (Transaction_init toy_ext ((Wallet_init toy_ext ''a'' 1)\<lparr>balance := 50\<rparr>) 3 10 0 0)
     (Some (Wallet_init toy_ext ''b'' 2)) = Inr False"
  using is_valid_sender_only [OF toy_ecdsa_correct, where nm = "''a''" and sk = 1 and x = 50
      and rcp = 3 and amt = 10 and now = 0 and k = 0]
    toy_ecdsa_correct
  by (simp add: Wallet_init_def)

section \<open>Pool admission\<close>

text \<open>
  C8, as the program has it.  \<open>add_transaction\<close> appends the transaction exactly when the
  amount is positive, sender and recipient differ and the balance of the wallet passed in
  covers amount + fee; otherwise the pool is unchanged.  It raises on no input, and its
  value is \<open>None\<close> on every path: no boolean reports the outcome.
\<close>

theorem add_transaction_admits:
  "add_transaction t w p =
     (PyNone,
      if 0 < amount t \<and> sender_public_key t \<noteq> recipient t \<and> float_add (amount t) (fee t) \<le> balance w
      then p\<lparr>pool_transactions := pool_transactions p @ [t]\<rparr> else p)"
  by (simp add: add_transaction_def)

text \<open>
  The claim as stated fails on an admitted transaction: wallet 2 holds 50 and sends 10;
  the transaction enters the pool and the value returned is \<open>None\<close>, not \<open>True\<close>.
\<close>

theorem add_transaction_returns_none:
  "add_transaction (Transaction_init toy_ext ((demo_wallet 2)\<lparr>balance := 50\<rparr>) 4 10 2 0)
     ((demo_wallet 2)\<lparr>balance := 50\<rparr>) Pool_init =
   (PyNone,
    \<lparr>pool_transactions = [Transaction_init toy_ext ((demo_wallet 2)\<lparr>balance := 50\<rparr>) 4 10 2 0]\<rparr>) \<and>
   fst (add_transaction (Transaction_init toy_ext ((demo_wallet 2)\<lparr>balance := 50\<rparr>) 4 10 2 0)
     ((demo_wallet 2)\<lparr>balance := 50\<rparr>) Pool_init) \<noteq> PyBool True"
proof -
  have "float_add 10 (fl (1 / 20)) \<le> 50" by (simp add: float_eval)
  then show ?thesis
    by (simp add: add_transaction_def Transaction_init_def Let_def fee_of_10 Pool_init_def
          demo_wallet_def Wallet_init_def)
qed

section \<open>Fees and balances\<close>

lemma is_valid_spec_valid:
  "is_valid E t (sender_lookup E s t) = Inr ok \<Longrightarrow> ok = spec_valid E s t"
  by (auto simp add: is_valid_def sender_lookup_def spec_valid_def split: option.splits)

lemma is_valid_resolved:
  "find_wallet_by_public_key E (bc s) (sender_public_key t) = Some a \<Longrightarrow>
     is_valid E t (sender_lookup E s t) = Inr (spec_valid E s t)"
  by (simp add: is_valid_def sender_lookup_def spec_valid_def)

lemma sum_fees_Inr:
  "sum_fees E s acc txs = Inr tf \<Longrightarrow>
     tf = foldl float_add acc (map fee (filter (spec_valid E s) txs)) \<and>
     (\<forall>t \<in> set txs. find_wallet_by_public_key E (bc s) (sender_public_key t) \<noteq> None)"
proof (induction txs arbitrary: acc)
  case Nil
  then show ?case by simp
next
  case (Cons u us)
  show ?case
  proof (cases "is_valid E u (sender_lookup E s u)")
    case (Inl e)
    with Cons.prems show ?thesis by simp
  next
    case (Inr ok)
    note ok = is_valid_spec_valid [OF Inr]
    from Inr have r: "find_wallet_by_public_key E (bc s) (sender_public_key u) \<noteq> None"
      by (auto simp add: is_valid_def sender_lookup_def split: option.splits)
    from Cons.prems Inr
    have "sum_fees E s (if ok then float_add acc (fee u) else acc) us = Inr tf" by simp
    from Cons.IH [OF this] r show ?thesis by (auto simp add: ok)
  qed
qed

lemma heap_apply_transaction:
  "heap (apply_transaction E t s) = spec_transfer E (bc s) (heap s) t"
  by (simp add: apply_transaction_def spec_transfer_def Let_def add_balance_def sub_balance_def
        spec_credit_def spec_debit_def split: option.split)

lemma public_key_credit [simp]: "public_key (spec_credit a x h w) = public_key (h w)"
  by (simp add: spec_credit_def)

lemma public_key_debit [simp]: "public_key (spec_debit a x h w) = public_key (h w)"
  by (simp add: spec_debit_def)

lemma public_key_spec_transfer [simp]:
  "public_key (spec_transfer E B h t w) = public_key (h w)"
  by (simp add: spec_transfer_def Let_def split: option.split)

lemma spec_valid_cong:
  "bc s' = bc s \<Longrightarrow> (\<forall>w. public_key (heap s' w) = public_key (heap s w)) \<Longrightarrow>
     spec_valid E s' t = spec_valid E s t"
  by (simp add: spec_valid_def verify_signature_def split: option.split)

lemma update_balances_heap:
  assumes "\<forall>t \<in> set txs. find_wallet_by_public_key E (bc s) (sender_public_key t) \<noteq> None"
    and "bc st = bc s" and "\<forall>w. public_key (heap st w) = public_key (heap s w)"
  shows "fst (update_balances E txs st) = Inr PyNone \<and>
         heap (snd (update_balances E txs st)) =
           foldl (spec_transfer E (bc s)) (heap st) (filter (spec_valid E s) txs)"
  using assms
proof (induction txs arbitrary: st)
  case Nil
  then show ?case by simp
next
  case (Cons u us)
  from Cons.prems(1) obtain a where
    a: "find_wallet_by_public_key E (bc st) (sender_public_key u) = Some a"
    by (auto simp add: Cons.prems(2))
  have v: "spec_valid E st u = spec_valid E s u"
    by (rule spec_valid_cong [OF Cons.prems(2,3)])
  let ?st = "if spec_valid E s u then apply_transaction E u st else st"
  have step: "update_balances E (u # us) st = update_balances E us ?st"
    by (simp add: is_valid_resolved [OF a] v)
  have b: "bc ?st = bc s" by (simp add: Cons.prems(2))
  have k: "\<forall>w. public_key (heap ?st w) = public_key (heap s w)"
    by (simp add: heap_apply_transaction Cons.prems(3))
  have r: "\<forall>t \<in> set us. find_wallet_by_public_key E (bc s) (sender_public_key t) \<noteq> None"
    using Cons.prems(1) by simp
  from Cons.IH [OF r b k] show ?case
    unfolding step by (simp add: heap_apply_transaction Cons.prems(2))
qed

text \<open>The balances after a successful \<open>add_block\<close>, step by step.\<close>

lemma add_block_heap:
  assumes "add_block E txs miner_wallets rnd now s = Some (Inr v, s')"
  shows "heap s' =
           foldl (spec_transfer E (bc s))
             (spec_credit (miner_wallets ! (rnd mod length miner_wallets))
                (float_add (reward (bc s)) (spec_total_fees E s txs)) (heap s))
             (filter (spec_valid E s) txs)"
proof -
  from assms have ne: "chain (bc s) \<noteq> []" "miner_wallets \<noteq> []"
    by (auto simp add: add_block_def split: if_splits)
  from assms ne obtain tf where tf: "sum_fees E s 0 txs = Inr tf"
    by (cases "sum_fees E s 0 txs") (auto simp add: add_block_def)
  from sum_fees_Inr [OF tf] have tf_eq: "tf = spec_total_fees E s txs"
    and res: "\<forall>t \<in> set txs. find_wallet_by_public_key E (bc s) (sender_public_key t) \<noteq> None"
    by (simp_all add: spec_total_fees_def)
  let ?m = "miner_wallets ! (rnd mod length miner_wallets)"
  let ?b = "Block_init (length (chain (bc s))) txs (hash (last (chain (bc s))))
              (bc_difficulty (bc s)) (Some (public_key (heap s ?m))) now"
  from assms ne tf obtain mined h where m: "mine_block E ?b = Some (mined, h)"
    by (cases "mine_block E ?b") (auto simp add: add_block_def Let_def)
  let ?st = "add_balance ?m (float_add (reward (bc s)) tf)
               (s\<lparr>bc := (bc s)\<lparr>chain := chain (bc s) @ [mined]\<rparr>\<rparr>)"
  let ?B = "(bc s)\<lparr>chain := chain (bc s) @ [mined]\<rparr>"
  let ?s1 = "s\<lparr>bc := ?B\<rparr>"
  from assms ne tf m have u: "update_balances E txs ?st = (Inr v, s')"
    by (simp add: add_block_def Let_def)
  have r1: "\<forall>t \<in> set txs. find_wallet_by_public_key E (bc ?s1) (sender_public_key t) \<noteq> None"
    using res by (simp add: find_wallet_by_public_key_def)
  have b1: "bc ?st = bc ?s1" by simp
  have k1: "\<forall>w. public_key (heap ?st w) = public_key (heap ?s1 w)"
    by (simp add: add_balance_def)
  from update_balances_heap [OF r1 b1 k1] u
  have "heap s' = foldl (spec_transfer E ?B) (heap ?st) (filter (spec_valid E ?s1) txs)"
    by simp
  moreover have "spec_valid E ?s1 = spec_valid E s"
    by (rule ext) (simp add: spec_valid_def find_wallet_by_public_key_def split: option.split)
  moreover have "spec_transfer E ?B = spec_transfer E (bc s)"
    by (intro ext) (simp add: spec_transfer_def find_wallet_by_public_key_def)
  moreover have "heap ?st = spec_credit ?m (float_add (reward (bc s)) (spec_total_fees E s txs)) (heap s)"
    by (simp add: add_balance_def spec_credit_def tf_eq)
  ultimately show ?thesis by simp
qed



lemma sum_fees_resolved:
  "\<forall>t \<in> set txs. find_wallet_by_public_key E (bc s) (sender_public_key t) \<noteq> None \<Longrightarrow>
     \<exists>tf. sum_fees E s acc txs = Inr tf"
proof (induction txs arbitrary: acc)
  case Nil
  then show ?case by simp
next
  case (Cons u us)
  then obtain a where "find_wallet_by_public_key E (bc s) (sender_public_key u) = Some a"
    by auto
  from is_valid_resolved [OF this] Cons show ?case by simp
qed

lemma add_block_outcome:
  assumes "add_block E txs miner_wallets rnd now s = Some (out, s')"
    and "\<forall>t \<in> set txs. find_wallet_by_public_key E (bc s) (sender_public_key t) \<noteq> None"
    and "chain (bc s) \<noteq> []" "miner_wallets \<noteq> []"
  shows "out = Inr PyNone"
proof -
  from sum_fees_resolved [OF assms(2)] obtain tf where tf: "sum_fees E s 0 txs = Inr tf"
    by blast
  let ?m = "miner_wallets ! (rnd mod length miner_wallets)"
  let ?b = "Block_init (length (chain (bc s))) txs (hash (last (chain (bc s))))
              (bc_difficulty (bc s)) (Some (public_key (heap s ?m))) now"
  from assms tf obtain mined h where m: "mine_block E ?b = Some (mined, h)"
    by (cases "mine_block E ?b") (auto simp add: add_block_def Let_def)
  let ?s1 = "s\<lparr>bc := (bc s)\<lparr>chain := chain (bc s) @ [mined]\<rparr>\<rparr>"
  let ?st = "add_balance ?m (float_add (reward (bc s)) tf) ?s1"
  from assms tf m have u: "update_balances E txs ?st = (out, s')"
    by (simp add: add_block_def Let_def)
  have r1: "\<forall>t \<in> set txs. find_wallet_by_public_key E (bc ?s1) (sender_public_key t) \<noteq> None"
    using assms(2) by (simp add: find_wallet_by_public_key_def)
  have "bc ?st = bc ?s1" "\<forall>w. public_key (heap ?st w) = public_key (heap ?s1 w)"
    by (simp_all add: add_balance_def)
  from update_balances_heap [OF r1 this] u show ?thesis by simp
qed

lemma toy_add_block_returns:
  assumes "chain (bc s) \<noteq> []" "miner_wallets \<noteq> []"
    and "0 < bc_difficulty (bc s)" "bc_difficulty (bc s) \<le> 4"
    and "\<forall>t \<in> set txs. find_wallet_by_public_key toy_ext (bc s) (sender_public_key t) \<noteq> None"
  shows "\<exists>s'. add_block toy_ext txs miner_wallets rnd now s = Some (Inr PyNone, s')"
proof -
  from sum_fees_resolved [OF assms(5)] obtain tf where tf: "sum_fees toy_ext s 0 txs = Inr tf"
    by blast
  from toy_add_block [OF assms(1,2) tf assms(3,4)] obtain x where
    x: "add_block toy_ext txs miner_wallets rnd now s = Some x" by blast
  obtain out s' where "x = (out, s')" by (cases x)
  with x add_block_outcome [OF _ assms(5,1,2)] show ?thesis by blast
qed



section \<open>The example run\<close>

lemma spec_valid_constructed:
  assumes "ecdsa_correct E"
    and "find_wallet_by_public_key E (bc s) (public_key_of E sk) = Some a"
    and "public_key (heap s a) = public_key_of E sk"
  shows "spec_valid E s (Transaction_init E ((Wallet_init E nm sk)\<lparr>balance := x\<rparr>) rcp amt now k)"
  using assms
  by (simp add: spec_valid_def ecdsa_correct_def verify_signature_def Transaction_init_def Let_def
        sign_transaction_def wallet_sign_transaction_def Wallet_init_def to_dict_def)

lemma Transaction_init_fields [simp]:
  "sender_public_key (Transaction_init E w rcp amt now k) = public_key w"
  "recipient (Transaction_init E w rcp amt now k) = rcp"
  "amount (Transaction_init E w rcp amt now k) = amt"
  "fee (Transaction_init E w rcp amt now k) = py_round (float_mul (fl (1 / 200)) amt) 8"
  "tx_timestamp (Transaction_init E w rcp amt now k) = now"
  by (simp_all add: Transaction_init_def Let_def)

lemma demo_wallets:
  "heap demo_s1 2 = (Wallet_init toy_ext ''w'' 2)\<lparr>balance := 50\<rparr>"
  "heap demo_s1 3 = Wallet_init toy_ext ''w'' 3"
  by (simp_all add: demo_s1_fields demo_wallet_def)

lemma demo_find:
  "find_wallet_by_public_key toy_ext (bc demo_s1) 3 = Some 2"
  "find_wallet_by_public_key toy_ext (bc demo_s1) 4 = Some 3"
  "find_wallet_by_public_key toy_ext (bc demo_s1) 8 = None"
  by (simp_all add: find_wallet_by_public_key_def demo_s1_fields eval_nat_numeral)






section \<open>Fees, scenario B and overspending\<close>

lemma add_block_registry:
  assumes "add_block E txs miner_wallets rnd now s = Some (Inr v, s')"
  shows "wallets (bc s') = wallets (bc s)" "reward (bc s') = reward (bc s)"
    "chain (bc s) \<noteq> []" "miner_wallets \<noteq> []"
proof -
  from add_block_returned [OF assms] obtain mined where
    "bc s' = (bc s)\<lparr>chain := chain (bc s) @ [mined]\<rparr>" and ne: "chain (bc s) \<noteq> []" by blast
  then show "wallets (bc s') = wallets (bc s)" "reward (bc s') = reward (bc s)"
    "chain (bc s) \<noteq> []" by simp_all
  from assms show "miner_wallets \<noteq> []" by (auto simp add: add_block_def split: if_splits)
qed


lemma fee_of_30: "py_round (float_mul (fl (1 / 200)) 30) 8 = fl (3 / 20)"
  by (simp add: float_eval)


lemma float_overspend:
  "float_add 30 (fl (3 / 20)) \<le> 50"
  "float_sub (float_sub 50 (float_add 30 (fl (3 / 20)))) (float_add 30 (fl (3 / 20))) < 0"
  by (simp_all add: float_eval)


text \<open>A block of transfers from one registered wallet to another, all signed by the sender.\<close>

lemma spec_transfer_pair:
  assumes "find_wallet_by_public_key E B (sender_public_key t) = Some a"
    and "find_wallet_by_public_key E B (recipient t) = Some b" and "a \<noteq> b"
  shows "balance (spec_transfer E B h t a) = float_sub (balance (h a)) (float_add (amount t) (fee t))"
    and "balance (spec_transfer E B h t b) = float_add (balance (h b)) (amount t)"
  using assms by (simp_all add: spec_transfer_def spec_credit_def spec_debit_def)

lemma distinct_keys:
  assumes "find_wallet_by_public_key E B k1 = Some a" "find_wallet_by_public_key E B k2 = Some b"
    and "a \<noteq> b"
  shows "k1 \<noteq> k2"
  using assms by auto




text \<open>
  C10.  Confirmation checks no balance.  A registered wallet holding 50 signs two transfers
  of 30 to another registered wallet; each is admitted to the pool, since each alone is
  covered by the balance at admission time; \<open>add_block\<close> on the pool's content, mined by
  someone else, debits both in full and leaves the sender with a negative balance.
\<close>

theorem overspend_goes_negative:
  assumes ec: "ecdsa_correct E"
    and wa: "heap s a = (Wallet_init E n1 k1)\<lparr>balance := 50\<rparr>"
    and ra: "find_wallet_by_public_key E (bc s) (public_key_of E k1) = Some a"
    and rb: "find_wallet_by_public_key E (bc s) rcp = Some b"
    and ab: "a \<noteq> b"
    and am: "a \<notin> set miner_wallets"
    and p1: "add_transaction (Transaction_init E (heap s a) rcp 30 ts1 r1) (heap s a) Pool_init
               = (v1, p1)"
    and p2: "add_transaction (Transaction_init E (heap s a) rcp 30 ts2 r2) (heap s a) p1
               = (v2, p2)"
    and run: "add_block E (get_transactions p2) miner_wallets rnd now s = Some (Inr v, s')"
  shows "get_transactions p2 =
           [Transaction_init E (heap s a) rcp 30 ts1 r1, Transaction_init E (heap s a) rcp 30 ts2 r2] \<and>
         balance (heap s' a) =
           float_sub (float_sub 50 (float_add 30 (fl (3 / 20)))) (float_add 30 (fl (3 / 20))) \<and>
         balance (heap s' a) < 0"
proof -
  let ?t1 = "Transaction_init E (heap s a) rcp 30 ts1 r1"
  let ?t2 = "Transaction_init E (heap s a) rcp 30 ts2 r2"
  let ?m = "miner_wallets ! (rnd mod length miner_wallets)"
  have keys: "public_key_of E k1 \<noteq> rcp" by (rule distinct_keys [OF ra rb ab])
  have pk: "public_key (heap s a) = public_key_of E k1" by (simp add: wa Wallet_init_def)
  have q1: "p1 = \<lparr>pool_transactions = [?t1]\<rparr>"
    using p1 keys
    by (auto simp add: add_transaction_def Pool_init_def fee_of_30 float_overspend(1) wa
          Wallet_init_def split: if_splits)
  have q2: "p2 = \<lparr>pool_transactions = [?t1, ?t2]\<rparr>"
    using p2 keys
    by (auto simp add: add_transaction_def q1 fee_of_30 float_overspend(1) wa
          Wallet_init_def split: if_splits)
  have pt: "get_transactions p2 = [?t1, ?t2]" by (simp add: q2 get_transactions_def)
  have v1: "spec_valid E s ?t1" and v2: "spec_valid E s ?t2"
    unfolding wa by (rule spec_valid_constructed [OF ec ra pk])+
  from add_block_registry(4) [OF run] have "?m \<in> set miner_wallets" by simp
  with am have ma: "?m \<noteq> a" by auto
  have fa: "find_wallet_by_public_key E (bc s) (sender_public_key ?t1) = Some a"
    "find_wallet_by_public_key E (bc s) (sender_public_key ?t2) = Some a"
    and fb: "find_wallet_by_public_key E (bc s) (recipient ?t1) = Some b"
    "find_wallet_by_public_key E (bc s) (recipient ?t2) = Some b"
    by (simp_all add: pk ra rb)
  let ?h0 = "spec_credit ?m (float_add (reward (bc s)) (spec_total_fees E s [?t1, ?t2])) (heap s)"
  have h: "heap s' = spec_transfer E (bc s) (spec_transfer E (bc s) ?h0 ?t1) ?t2"
    using add_block_heap [OF run] v1 v2 by (simp add: pt)
  have b0: "balance (?h0 a) = 50" using ma by (simp add: spec_credit_def wa)
  have "balance (heap s' a) =
          float_sub (float_sub (balance (?h0 a)) (float_add (amount ?t1) (fee ?t1)))
            (float_add (amount ?t2) (fee ?t2))"
    unfolding h spec_transfer_pair(1) [OF fa(2) fb(2) ab] spec_transfer_pair(1) [OF fa(1) fb(1) ab]
    by (rule refl)
  then have bal: "balance (heap s' a) =
           float_sub (float_sub 50 (float_add 30 (fl (3 / 20)))) (float_add 30 (fl (3 / 20)))"
    by (simp only: b0 Transaction_init_fields fee_of_30)
  with pt float_overspend(2) show ?thesis by simp
qed

lemma over_pool_eq:
  "add_transaction over_tx1 (heap demo_s1 2) Pool_init =
     (PyNone, snd (add_transaction over_tx1 (heap demo_s1 2) Pool_init))"
  "add_transaction over_tx2 (heap demo_s1 2) (snd (add_transaction over_tx1 (heap demo_s1 2) Pool_init))
     = (PyNone, over_pool)"
  by (simp_all add: over_pool_def add_transaction_def)

lemma over_pool_transactions: "get_transactions over_pool = [over_tx1, over_tx2]"
  by (simp add: over_pool_def get_transactions_def add_transaction_def over_tx1_def over_tx2_def
        fee_of_30 float_overspend(1) demo_wallets Wallet_init_def Pool_init_def)

lemma over_add_block:
  "add_block toy_ext (get_transactions over_pool) [3] 0 4 demo_s1 = Some (Inr PyNone, over_s2)"
proof -
  have "\<forall>t \<in> set (get_transactions over_pool).
          find_wallet_by_public_key toy_ext (bc demo_s1) (sender_public_key t) \<noteq> None"
    by (simp add: over_pool_transactions over_tx1_def over_tx2_def demo_wallets Wallet_init_def
          demo_find)
  from toy_add_block_returns [OF demo_s1_fields(1) _ _ _ this, of "[3]" 0 4]
  obtain s' where "add_block toy_ext (get_transactions over_pool) [3] 0 4 demo_s1 =
                     Some (Inr PyNone, s')"
    by (auto simp add: demo_s1_fields)
  then show ?thesis by (simp add: over_s2_def)
qed

theorem overspend_goes_negative_witness:
  "ecdsa_correct toy_ext \<and>
   balance (heap demo_s1 2) = 50 \<and>
   get_transactions over_pool = [over_tx1, over_tx2] \<and>
   add_block toy_ext (get_transactions over_pool) [3] 0 4 demo_s1 = Some (Inr PyNone, over_s2) \<and>
   balance (heap over_s2 2) < 0"
proof -
  have ra: "find_wallet_by_public_key toy_ext (bc demo_s1) (public_key_of toy_ext 2) = Some 2"
    by (simp add: demo_find)
  have rb: "find_wallet_by_public_key toy_ext (bc demo_s1) 4 = Some 3"
    by (simp add: demo_find)
  have ab: "(2::nat) \<noteq> 3" and am: "(2::nat) \<notin> set [3]" by simp_all
  have p1: "add_transaction (Transaction_init toy_ext (heap demo_s1 2) 4 30 2 0) (heap demo_s1 2)
              Pool_init = (PyNone, snd (add_transaction over_tx1 (heap demo_s1 2) Pool_init))"
    using over_pool_eq(1) by (simp add: over_tx1_def demo_wallets Wallet_init_def)
  have p2: "add_transaction (Transaction_init toy_ext (heap demo_s1 2) 4 30 3 1) (heap demo_s1 2)
              (snd (add_transaction over_tx1 (heap demo_s1 2) Pool_init)) = (PyNone, over_pool)"
    using over_pool_eq(2) by (simp add: over_tx2_def demo_wallets Wallet_init_def)
  from overspend_goes_negative [OF toy_ecdsa_correct demo_wallets(1) ra rb ab am p1 p2 over_add_block]
  show ?thesis
    using toy_ecdsa_correct over_add_block over_pool_transactions
    by (simp add: demo_wallets)
qed

section \<open>The concrete instance is collision free\<close>

lemma e_nat_inj [simp]: "e_nat n r = e_nat m r' \<longleftrightarrow> n = m \<and> r = r'"
proof (induction n arbitrary: m)
  case 0
  then show ?case by (cases m) auto
next
  case (Suc n)
  then show ?case by (cases m) auto
qed

lemma e_str_inj [simp]: "e_str s r = e_str s' r' \<longleftrightarrow> s = s' \<and> r = r'"
proof (induction s arbitrary: s')
  case Nil
  then show ?case by (cases s') auto
next
  case (Cons c s)
  then show ?case by (cases s') auto
qed

lemma e_strs_inj [simp]: "e_strs ss r = e_strs ss' r' \<longleftrightarrow> ss = ss' \<and> r = r'"
proof (induction ss arbitrary: ss')
  case Nil
  then show ?case by (cases ss') auto
next
  case (Cons s ss)
  then show ?case by (cases ss') auto
qed

lemma e_opt_inj [simp]: "e_opt x r = e_opt y r' \<longleftrightarrow> x = y \<and> r = r'"
  by (cases x; cases y) auto

lemma e_int_inj [simp]: "e_int i r = e_int j r' \<longleftrightarrow> i = j \<and> r = r'"
  by (auto simp add: e_int_def split: if_splits)

lemma e_rat_inj [simp]: "e_rat x r = e_rat y r' \<longleftrightarrow> x = y \<and> r = r'"
proof -
  have "fst (quotient_of x) = fst (quotient_of y) \<and> snd (quotient_of x) = snd (quotient_of y)
          \<longleftrightarrow> x = y"
    by (auto simp add: prod_eq_iff [symmetric] quotient_of_inject)
  then show ?thesis by (auto simp add: e_rat_def)
qed







section \<open>Tampering with stored blocks\<close>







lemma hash_map_tx [simp]: "hash (map_tx j f b) = hash b" "previous_hash (map_tx j f b) = previous_hash b"
  by (simp_all add: map_tx_def)




text \<open>What the validity check does not see.\<close>

lemma to_dict_signature [simp]: "to_dict E (u\<lparr>signature := v\<rparr>) = to_dict E u"
  by (simp add: to_dict_def)








end
